theory Spec2Isabelle
  imports Main
begin

section \<open>Exceptions\<close>

text \<open>
  The exceptions the program meets, each with its message text: \<open>ValueError\<close> from the
  time parser, \<open>ClientError\<close> from the HTTP session (\<open>raise_for_status\<close>, connection
  failures), \<open>DiscordException\<close> from \<open>bot.fetch_user\<close> and \<open>user.send\<close>,
  \<open>PostgresError\<close> from a query the database refuses, \<open>DataError\<close> from asyncpg
  when an argument does not fit the type of its query parameter. All of them are
  subclasses of Python's \<open>Exception\<close>.
\<close>

datatype error =
  ValueError string | ClientError string | DiscordException string | PostgresError string
| DataError string

section \<open>Dates and times\<close>

text \<open>
  The proleptic Gregorian calendar of the standard library's \<open>datetime\<close> module:
  \<open>_ymd2ord\<close> numbers the days from 0001-01-01 (day 1) and \<open>_ord2ymd\<close> reads year,
  month and day off a day number.
\<close>

definition is_leap :: "int \<Rightarrow> bool" where
  "is_leap y = (y mod 4 = 0 \<and> (y mod 100 \<noteq> 0 \<or> y mod 400 = 0))"

definition days_before_year :: "int \<Rightarrow> int" where
  "days_before_year year =
     (let y = year - 1 in y * 365 + y div 4 - y div 100 + y div 400)"

definition DAYS_IN_MONTH :: "int list" where
  "DAYS_IN_MONTH = [-1, 31, 28, 31, 30, 31, 30, 31, 31, 30, 31, 30, 31]"

definition DAYS_BEFORE_MONTH :: "int list" where
  "DAYS_BEFORE_MONTH = [-1, 0, 31, 59, 90, 120, 151, 181, 212, 243, 273, 304, 334]"

definition days_before_month :: "int \<Rightarrow> int \<Rightarrow> int" where
  "days_before_month year month =
     DAYS_BEFORE_MONTH ! nat month + (if month > 2 \<and> is_leap year then 1 else 0)"

definition ymd2ord :: "int \<Rightarrow> int \<Rightarrow> int \<Rightarrow> int" where
  "ymd2ord year month day = days_before_year year + days_before_month year month + day"

definition ord2ymd :: "int \<Rightarrow> int \<times> int \<times> int" where
  "ord2ymd n0 =
     (let n = n0 - 1;
          n400 = n div 146097; n = n mod 146097;
          year = n400 * 400 + 1;
          n100 = n div 36524; n = n mod 36524;
          n4 = n div 1461; n = n mod 1461;
          n1 = n div 365; n = n mod 365;
          year = year + n100 * 100 + n4 * 4 + n1
      in if n1 = 4 \<or> n100 = 4 then (year - 1, 12, 31)
         else
           let leapyear = (n1 = 3 \<and> (n4 \<noteq> 24 \<or> n100 = 3));
               month = (n + 50) div 32;
               preceding = DAYS_BEFORE_MONTH ! nat month
                             + (if month > 2 \<and> leapyear then 1 else 0)
           in if preceding > n
              then let month = month - 1;
                       preceding = preceding
                         - (DAYS_IN_MONTH ! nat month
                            + (if month = 2 \<and> leapyear then 1 else 0))
                   in (year, month, n - preceding + 1)
              else (year, month, n - preceding + 1))"

text \<open>
  A naive \<open>datetime\<close>, by its fields. \<open>to_usec\<close> counts its microseconds from the
  start of day 0 and \<open>of_usec\<close> is the datetime of a count: the arithmetic behind
  \<open>datetime + timedelta\<close> and the conversions between zones. The range check of the
  standard library (years 1 to 9999, \<open>OverflowError\<close> beyond) is not modelled.
\<close>

record datetime =
  year :: int
  month :: int
  day :: int
  hour :: int
  minute :: int
  second :: int
  microsecond :: int

definition toordinal :: "datetime \<Rightarrow> int" where
  "toordinal d = ymd2ord (year d) (month d) (day d)"

definition to_usec :: "datetime \<Rightarrow> int" where
  "to_usec d =
     (((toordinal d * 24 + hour d) * 60 + minute d) * 60 + second d) * 1000000 + microsecond d"

definition of_usec :: "int \<Rightarrow> datetime" where
  "of_usec u =
     (case ord2ymd (u div 86400000000) of (y, m, d) \<Rightarrow>
        \<lparr>year = y, month = m, day = d,
         hour = u mod 86400000000 div 3600000000,
         minute = u mod 3600000000 div 60000000,
         second = u mod 60000000 div 1000000,
         microsecond = u mod 1000000\<rparr>)"

text \<open>
  An aware \<open>datetime\<close> whose \<open>tzinfo\<close> is one of pytz's fixed-offset instances: the
  wall-clock fields and the offset from UTC, in minutes (pytz rounds every offset of
  the zone database to whole minutes). The instant it denotes is the wall clock minus
  the offset, here in microseconds.
\<close>

record aware =
  naive :: datetime
  utcoff :: int

definition instant :: "aware \<Rightarrow> int" where
  "instant a = to_usec (naive a) - utcoff a * 60000000"

text \<open>
  A pytz timezone, by the two things the program asks of it: the offset in force at a
  UTC instant (what \<open>datetime.now(tz)\<close> and \<open>astimezone(tz)\<close> attach), and the offset
  \<open>tz.localize\<close> attaches to a naive wall-clock time (with its default
  \<open>is_dst=False\<close>). Offsets are in minutes.
\<close>

record timezone =
  utcoffset_at :: "int \<Rightarrow> int"
  localize_offset :: "datetime \<Rightarrow> int"

definition from_instant :: "timezone \<Rightarrow> int \<Rightarrow> aware" where
  "from_instant tz u =
     \<lparr>naive = of_usec (u + utcoffset_at tz u * 60000000), utcoff = utcoffset_at tz u\<rparr>"

definition UTC :: timezone where
  "UTC = \<lparr>utcoffset_at = (\<lambda>_. 0), localize_offset = (\<lambda>_. 0)\<rparr>"

definition datetime_now :: "timezone \<Rightarrow> int \<Rightarrow> aware" where
  "datetime_now tz clock = from_instant tz clock"

definition astimezone :: "timezone \<Rightarrow> aware \<Rightarrow> aware" where
  "astimezone tz a = from_instant tz (instant a)"

definition localize :: "timezone \<Rightarrow> datetime \<Rightarrow> aware" where
  "localize tz d = \<lparr>naive = d, utcoff = localize_offset tz d\<rparr>"

text \<open>
  Adding a \<open>timedelta\<close> of whole days to an aware datetime moves the wall clock and
  keeps the \<open>tzinfo\<close> object, hence the offset, as it is.
\<close>

definition add_days :: "aware \<Rightarrow> int \<Rightarrow> aware" where
  "add_days a n = a\<lparr>naive := of_usec (to_usec (naive a) + n * 86400000000)\<rparr>"

text \<open>Aware datetimes compare by the instants they denote.\<close>

definition aware_le :: "aware \<Rightarrow> aware \<Rightarrow> bool" where
  "aware_le a b = (instant a \<le> instant b)"

text \<open>A zone with one offset for all time, such as the default Asia/Riyadh (UTC+3).\<close>

definition fixed_zone :: "int \<Rightarrow> timezone" where
  "fixed_zone k = \<lparr>utcoffset_at = (\<lambda>_. k), localize_offset = (\<lambda>_. k)\<rparr>"

definition riyadh :: timezone where
  "riyadh = fixed_zone 180"

text \<open>
  America/New_York as pytz has it for the instants from 2023-11-05 to 2025-03-09:
  UTC-5 until 2024-03-10 07:00 UTC, UTC-4 until 2024-11-03 06:00 UTC, UTC-5 after.
  \<open>localize\<close> gives the wall-clock times before 03:00 on 10 March UTC-5, those before
  01:00 on 3 November UTC-4 and the later ones UTC-5.
\<close>

definition new_york :: timezone where
  "new_york =
     \<lparr>utcoffset_at = (\<lambda>u.
        if u <
             to_usec \<lparr>year = 2024, month = 3, day = 10, hour = 7, minute = 0, second = 0, microsecond = 0\<rparr>
        then - 300
        else if u <
             to_usec \<lparr>year = 2024, month = 11, day = 3, hour = 6, minute = 0, second = 0, microsecond = 0\<rparr>
        then - 240 else - 300),
      localize_offset = (\<lambda>d.
        if to_usec d <
             to_usec \<lparr>year = 2024, month = 3, day = 10, hour = 3, minute = 0, second = 0, microsecond = 0\<rparr>
        then - 300
        else if to_usec d <
             to_usec \<lparr>year = 2024, month = 11, day = 3, hour = 1, minute = 0, second = 0, microsecond = 0\<rparr>
        then - 240 else - 300)\<rparr>"

section \<open>The time parser\<close>

text \<open>
  The time string is a Python \<open>str\<close>, a list of Unicode code points (integers); \<open>str\<close> writes one
  from a literal of ASCII characters. The tables are those of Python 3.11 (Unicode
  14.0). \<open>isspace\<close> is what \<open>str.strip()\<close> removes and what the regular expression's
  \<open>\s\<close> matches.
\<close>

definition str :: "string \<Rightarrow> int list" where
  "str s = map of_char s"

definition isspace :: "int \<Rightarrow> bool" where
  "isspace c =
     (c \<in> set [9, 10, 11, 12, 13, 28, 29, 30, 31, 32, 133, 160, 5760, 8192, 8193, 8194, 8195,
               8196, 8197, 8198, 8199, 8200, 8201, 8202, 8232, 8233, 8239, 8287, 12288])"

definition strip :: "int list \<Rightarrow> int list" where
  "strip s = rev (dropWhile isspace (rev (dropWhile isspace s)))"

text \<open>
  The decimal digits, which \<open>\d\<close> matches and \<open>int\<close> reads, come in blocks of ten code
  points, zero to nine; \<open>decimal_zeros\<close> lists the zero of every block.
\<close>

definition decimal_zeros :: "int list" where
  "decimal_zeros =
     [48, 1632, 1776, 1984, 2406, 2534, 2662, 2790, 2918, 3046, 3174, 3302, 3430, 3558,
      3664, 3792, 3872, 4160, 4240, 6112, 6160, 6470, 6608, 6784, 6800, 6992, 7088,
      7232, 7248, 42528, 43216, 43264, 43472, 43504, 43600, 44016, 65296, 66720, 68912,
      69734, 69872, 69942, 70096, 70384, 70736, 70864, 71248, 71360, 71472, 71904,
      72016, 72784, 73040, 73120, 92768, 92864, 93008, 120782, 120792, 120802, 120812,
      120822, 123200, 123632, 125264, 130032]"

definition isdigit :: "int \<Rightarrow> bool" where
  "isdigit c = list_ex (\<lambda>z. z \<le> c \<and> c < z + 10) decimal_zeros"

definition digit_value :: "int \<Rightarrow> int" where
  "digit_value c =
     (case find (\<lambda>z. z \<le> c \<and> c < z + 10) decimal_zeros of Some z \<Rightarrow> c - z | None \<Rightarrow> 0)"

text \<open>
  Lower case, on the letters A to Z: with case ignored, the letters of the pattern
  \<open>am|pm\<close> match only their ASCII upper and lower case.
\<close>

definition lower :: "int \<Rightarrow> int" where
  "lower c = (if 65 \<le> c \<and> c \<le> 90 then c + 32 else c)"

text \<open>
  \<open>strptime\<close> turns the format \<open>%I:%M %p\<close> into the regular expression
  \<open>(1[0-2]|0[1-9]|[1-9]):([0-5]\d|\d)\s+(am|pm)\<close>, matched at the start of the string
  with case ignored. Each piece below returns the ways it can match a prefix, in the
  order a backtracking matcher tries them, as the matched text and the rest.
\<close>

fun re_I :: "int list \<Rightarrow> (int list \<times> int list) list" where
  "re_I (a # b # r) =
     (if [a] = str ''1'' \<and> b \<in> set (str ''012'') then [([a, b], r)] else []) @
     (if [a] = str ''0'' \<and> b \<in> set (str ''123456789'') then [([a, b], r)] else []) @
     (if a \<in> set (str ''123456789'') then [([a], b # r)] else [])"
| "re_I [a] = (if a \<in> set (str ''123456789'') then [([a], [])] else [])"
| "re_I [] = []"

fun re_colon :: "int list \<Rightarrow> int list list" where
  "re_colon (a # r) = (if [a] = str '':'' then [r] else [])"
| "re_colon [] = []"

fun re_M :: "int list \<Rightarrow> (int list \<times> int list) list" where
  "re_M (a # b # r) =
     (if a \<in> set (str ''012345'') \<and> isdigit b then [([a, b], r)] else []) @
     (if isdigit a then [([a], b # r)] else [])"
| "re_M [a] = (if isdigit a then [([a], [])] else [])"
| "re_M [] = []"

fun re_spaces :: "int list \<Rightarrow> int list list" where
  "re_spaces (a # r) = (if isspace a then re_spaces r @ [r] else [])"
| "re_spaces [] = []"

fun re_p :: "int list \<Rightarrow> (int list \<times> int list) list" where
  "re_p (a # b # r) =
     (if map lower [a, b] = str ''am'' then [([a, b], r)] else []) @
     (if map lower [a, b] = str ''pm'' then [([a, b], r)] else [])"
| "re_p [a] = []"
| "re_p [] = []"

text \<open>
  All the ways the whole pattern matches a prefix, in the matcher's order (the groups
  \<open>I\<close>, \<open>M\<close>, \<open>p\<close> and the text left over); \<open>match\<close> returns the first.
\<close>

definition format_regex_matches ::
  "int list \<Rightarrow> ((int list \<times> int list \<times> int list) \<times> int list) list" where
  "format_regex_matches s =
     [((i, m, p), rest).
        (i, r1) \<leftarrow> re_I s, r2 \<leftarrow> re_colon r1, (m, r3) \<leftarrow> re_M r2,
        r4 \<leftarrow> re_spaces r3, (p, rest) \<leftarrow> re_p r4]"

definition format_regex_match ::
  "int list \<Rightarrow> ((int list \<times> int list \<times> int list) \<times> int list) option" where
  "format_regex_match s =
     (case format_regex_matches s of [] \<Rightarrow> None | found # _ \<Rightarrow> Some found)"

fun int_of_digits :: "int list \<Rightarrow> int" where
  "int_of_digits s = foldl (\<lambda>n c. 10 * n + digit_value c) 0 s"

text \<open>
  \<open>datetime.strptime(s, "%I:%M %p").time()\<close>: the hour (0 to 23) and the minute, or
  \<open>ValueError\<close> when the string does not match or text remains after the match.
\<close>

definition strptime :: "int list \<Rightarrow> error + (int \<times> int)" where
  "strptime s =
     (case format_regex_match s of
        None \<Rightarrow> Inl (ValueError ''time data does not match format'')
      | Some ((i, m, p), rest) \<Rightarrow>
          if rest \<noteq> [] then Inl (ValueError ''unconverted data remains'')
          else
            let hour = int_of_digits i;
                ampm = map lower p;
                hour = (if ampm = str ''am'' then (if hour = 12 then 0 else hour)
                        else if ampm = str ''pm'' then (if hour \<noteq> 12 then hour + 12 else hour)
                        else hour)
            in Inr (hour, int_of_digits m))"

text \<open>
  The claim's words for a valid input, the strict 12-hour clock format: an hour from 1
  to 12 (a leading zero allowed, as in \<open>02:30 PM\<close>), a colon, a minute from 00 to 59 in
  two digits, a space, and the marker AM or PM.
\<close>

definition hour_numerals :: "int list list" where
  "hour_numerals =
     [[a]. a \<leftarrow> str ''123456789''] @ [str ''0'' @ [a]. a \<leftarrow> str ''123456789''] @
     [str ''10'', str ''11'', str ''12'']"

definition strict_format :: "int list \<Rightarrow> bool" where
  "strict_format s =
     (\<exists>h \<in> set hour_numerals. \<exists>a \<in> set (str ''012345''). \<exists>b \<in> set (str ''0123456789'').
        s = h @ str '':'' @ [a, b] @ str '' AM'' \<or> s = h @ str '':'' @ [a, b] @ str '' PM'')"

text \<open>
  The format that \<open>strptime\<close> reads \<open>%I:%M %p\<close> as, after the white space around the
  string is stripped: an hour from 1 to 12 in one or two digits, a colon, a minute from
  0 to 59 in one or two decimal digits, white space, and \<open>am\<close> or \<open>pm\<close> in either
  case.
\<close>

fun minute_numeral :: "int list \<Rightarrow> bool" where
  "minute_numeral [a, b] = (a \<in> set (str ''012345'') \<and> isdigit b)"
| "minute_numeral [a] = isdigit a"
| "minute_numeral m = False"

definition twelve_hour_format :: "int list \<Rightarrow> bool" where
  "twelve_hour_format s =
     (\<exists>h m ws p. strip s = h @ str '':'' @ m @ ws @ p \<and>
        h \<in> set hour_numerals \<and> minute_numeral m \<and>
        ws \<noteq> [] \<and> list_all isspace ws \<and>
        (map lower p = str ''am'' \<or> map lower p = str ''pm''))"

text \<open>
  \<open>parse_time_12h_to_utc\<close>, with the timezone \<open>tz\<close> of the configuration and the
  instant \<open>clock\<close> that \<open>datetime.now\<close> reads as parameters.
\<close>

definition parse_time_12h_to_utc :: "timezone \<Rightarrow> int \<Rightarrow> int list \<Rightarrow> error + aware" where
  "parse_time_12h_to_utc tz clock time_str =
     (case strptime (strip time_str) of
        Inl e \<Rightarrow>
          Inl (ValueError (''Time must be in 12-hour format like '' @ [CHR 0x27] @ ''02:30 PM'' @ [CHR 0x27]))
      | Inr (parsed_hour, parsed_minute) \<Rightarrow>
          let now_local = datetime_now tz clock;
              run_local = localize tz
                \<lparr>year = year (naive now_local), month = month (naive now_local),
                 day = day (naive now_local), hour = parsed_hour, minute = parsed_minute,
                 second = 0, microsecond = 0\<rparr>;
              run_local = (if aware_le run_local now_local then add_days run_local 1 else run_local);
              run_utc = astimezone UTC run_local
          in Inr run_utc)"

section \<open>Rendering a time\<close>

fun digits_of :: "nat \<Rightarrow> nat \<Rightarrow> string" where
  "digits_of 0 n = []"
| "digits_of (Suc w) n = digits_of w (n div 10) @ [''0123456789'' ! (n mod 10)]"

text \<open>
  \<open>strftime("%Y-%m-%d %I:%M %p")\<close> on the fields of a datetime, the year written
  with four digits.
\<close>

definition strftime :: "datetime \<Rightarrow> string" where
  "strftime d =
     digits_of 4 (nat (year d)) @ ''-'' @ digits_of 2 (nat (month d)) @ ''-'' @
     digits_of 2 (nat (day d)) @ '' '' @
     digits_of 2 (nat (if hour d mod 12 = 0 then 12 else hour d mod 12)) @ '':'' @
     digits_of 2 (nat (minute d)) @ '' '' @
     (if hour d < 12 then ''AM'' else ''PM'')"

definition pretty_time_local :: "timezone \<Rightarrow> aware \<Rightarrow> string" where
  "pretty_time_local tz utc_dt = (let local = astimezone tz utc_dt in strftime (naive local))"

section \<open>The schedules table\<close>

text \<open>
  A row of the table \<open>schedules\<close>. \<open>run_at\<close> and \<open>created_at\<close> are instants
  (\<open>TIMESTAMP WITH TIME ZONE\<close>), in microseconds; \<open>status\<close> is the \<open>TEXT\<close> column.
  The table is the list of its rows in the order of insertion, with the next value of
  the \<open>SERIAL\<close> sequence behind the column \<open>id\<close>. Queries do not fail but where a
  function below says so (no loss of the connection is modelled).
\<close>

record schedule =
  sid :: int
  user_id :: int
  message :: "string option"
  attachment_url :: "string option"
  run_at :: int
  status :: string
  created_at :: int

record store =
  table :: "schedule list"
  next_id :: int

definition init_db :: store where
  "init_db = \<lparr>table = [], next_id = 1\<rparr>"

text \<open>\<open>db_now\<close> is the database's \<open>now()\<close> at the time of the query.\<close>

definition add_schedule ::
  "int \<Rightarrow> int \<Rightarrow> aware \<Rightarrow> string option \<Rightarrow> string option \<Rightarrow> store \<Rightarrow> int \<times> store" where
  "add_schedule db_now uid run_at_utc msg url st =
     (next_id st,
      st\<lparr>table := table st @
           [\<lparr>sid = next_id st, user_id = uid, message = msg, attachment_url = url,
             run_at = instant run_at_utc, status = ''pending'', created_at = db_now\<rparr>],
         next_id := next_id st + 1\<rparr>)"

text \<open>
  \<open>ORDER BY run_at ASC\<close> is a stable sort here (SQL leaves the order of rows with
  equal \<open>run_at\<close> open); PostgreSQL refuses a negative \<open>LIMIT\<close>.
\<close>

definition due :: "int \<Rightarrow> schedule \<Rightarrow> bool" where
  "due db_now r = (status r = ''pending'' \<and> run_at r \<le> db_now)"

definition fetch_due :: "int \<Rightarrow> int \<Rightarrow> store \<Rightarrow> error + schedule list" where
  "fetch_due limit db_now st =
     (if limit < 0 then Inl (PostgresError ''LIMIT must not be negative'')
      else Inr (take (nat limit) (sort_key run_at (filter (due db_now) (table st)))))"

definition mark_sent :: "int \<Rightarrow> string \<Rightarrow> store \<Rightarrow> store" where
  "mark_sent schedule_id new_status st =
     st\<lparr>table := map (\<lambda>r. if sid r = schedule_id then r\<lparr>status := new_status\<rparr> else r) (table st)\<rparr>"

definition get_all_schedules :: "store \<Rightarrow> schedule list" where
  "get_all_schedules st = sort_key run_at (table st)"

text \<open>
  The column \<open>id\<close> is \<open>SERIAL\<close>, a 32-bit integer, and so is the parameter of
  \<open>WHERE id=$1\<close>: asyncpg raises \<open>DataError\<close> for an argument outside its range,
  before the query is sent. (\<open>mark_sent\<close> is called with the id of a fetched row only.)
\<close>

definition int4_range :: "int \<Rightarrow> bool" where
  "int4_range i = (- 2147483648 \<le> i \<and> i \<le> 2147483647)"

definition get_schedule :: "int \<Rightarrow> store \<Rightarrow> error + schedule option" where
  "get_schedule schedule_id st =
     (if int4_range schedule_id then Inr (find (\<lambda>r. sid r = schedule_id) (table st))
      else Inl (DataError ''value out of int32 range''))"

text \<open>\<open>cancel_schedule\<close> returns the number of rows the \<open>UPDATE\<close> changed (its command tag).\<close>

definition cancel_schedule :: "int \<Rightarrow> store \<Rightarrow> error + (nat \<times> store)" where
  "cancel_schedule schedule_id st =
     (if int4_range schedule_id
      then Inr
        (length (filter (\<lambda>r. sid r = schedule_id \<and> status r = ''pending'') (table st)),
         st\<lparr>table := map (\<lambda>r. if sid r = schedule_id \<and> status r = ''pending''
                                 then r\<lparr>status := ''canceled''\<rparr> else r) (table st)\<rparr>)
      else Inl (DataError ''value out of int32 range''))"

section \<open>The attachment fetcher\<close>

text \<open>\<open>str.split\<close> with a separator of one character: the pieces between its occurrences.\<close>

fun split :: "char \<Rightarrow> string \<Rightarrow> string list" where
  "split sep [] = [[]]"
| "split sep (a # s) =
     (if a = sep then [] # split sep s
      else (case split sep s of p # ps \<Rightarrow> (a # p) # ps | [] \<Rightarrow> [[a]]))"

text \<open>
  The world outside the program, of any type \<open>'w\<close>, and the three calls into it: the
  HTTP GET of the session with \<open>raise_for_status\<close> and \<open>read\<close> (the bytes of the
  body), \<open>bot.fetch_user\<close> (the user resolved, by id) and \<open>user.send\<close> with the
  content and the file (bytes and filename), if any. Each call returns its result or
  the exception it raises, and the world after it.
\<close>

record 'w platform =
  http_get :: "'w \<Rightarrow> string \<Rightarrow> (error + string) \<times> 'w"
  fetch_user :: "'w \<Rightarrow> int \<Rightarrow> (error + int) \<times> 'w"
  user_send :: "'w \<Rightarrow> int \<Rightarrow> string \<Rightarrow> (string \<times> string) option \<Rightarrow> (error + unit) \<times> 'w"

text \<open>
  \<open>url.split("?")[0].split("/")[-1] or "file"\<close>. \<open>split\<close> never returns the empty
  list (lemma \<open>split_not_Nil\<close>), so the two subscripts do not raise.
\<close>

definition filename_of_url :: "string \<Rightarrow> string" where
  "filename_of_url url =
     (let name = last (split CHR ''/'' (hd (split CHR ''?'' url)))
      in if name = [] then ''file'' else name)"

definition download_bytes ::
  "'w platform \<Rightarrow> 'w \<Rightarrow> string \<Rightarrow> (error + (string \<times> string)) \<times> 'w" where
  "download_bytes env w url =
     (case http_get env w url of
        (Inl e, w') \<Rightarrow> (Inl e, w')
      | (Inr data, w') \<Rightarrow> (Inr (data, filename_of_url url), w'))"

text \<open>
  The text of a string before the first occurrence of a character, and after the last.
\<close>

definition text_before_first :: "char \<Rightarrow> string \<Rightarrow> string" where
  "text_before_first c s = takeWhile (\<lambda>x. x \<noteq> c) s"

definition text_after_last :: "char \<Rightarrow> string \<Rightarrow> string" where
  "text_after_last c s = rev (takeWhile (\<lambda>x. x \<noteq> c) (rev s))"

text \<open>
  The claim's words for the filename. The path of a URL
  \<open>scheme://authority/path?query#fragment\<close> (or of a reference without scheme and
  authority): what stands between the authority and the first \<open>?\<close> or \<open>#\<close>. The
  filename of the claim is the last segment of that path, or \<open>file\<close> when the segment
  is empty.
\<close>

definition url_path :: "string \<Rightarrow> string" where
  "url_path url =
     (let scheme = takeWhile (\<lambda>c. c \<notin> set '':/?#'') url;
          rest = drop (length scheme) url
      in if take 3 rest = ''://''
         then takeWhile (\<lambda>c. c \<notin> set ''?#'') (dropWhile (\<lambda>c. c \<notin> set ''/?#'') (drop 3 rest))
         else takeWhile (\<lambda>c. c \<notin> set ''?#'') url)"

definition path_filename :: "string \<Rightarrow> string" where
  "path_filename url =
     (let segment = text_after_last CHR ''/'' (url_path url)
      in if segment = [] then ''file'' else segment)"


section \<open>The poll loop\<close>

text \<open>
  The state of the program: the world outside, the table, and what \<open>print\<close> has
  written. A line \<open>Failed to send schedule {sid} to {user_id}: {e}\<close> is kept as its
  three values.
\<close>

datatype log_line = Failed_to_send int int error

record 'w state =
  world :: 'w
  db :: store
  printed :: "log_line list"

definition or_empty :: "string option \<Rightarrow> string" where
  "or_empty msg = (case msg of None \<Rightarrow> [] | Some m \<Rightarrow> m)"

text \<open>
  The body of \<open>try\<close> in \<open>process_due\<close> up to the send: resolve the user, download
  the attachment when the URL is neither \<open>None\<close> nor empty, send.
\<close>

definition attempt :: "'w platform \<Rightarrow> 'w \<Rightarrow> schedule \<Rightarrow> (error + unit) \<times> 'w" where
  "attempt env w row =
     (case fetch_user env w (user_id row) of
        (Inl e, w1) \<Rightarrow> (Inl e, w1)
      | (Inr user, w1) \<Rightarrow>
          (if attachment_url row \<noteq> None \<and> attachment_url row \<noteq> Some []
           then
             (case download_bytes env w1 (the (attachment_url row)) of
                (Inl e, w2) \<Rightarrow> (Inl e, w2)
              | (Inr (bio, fname), w2) \<Rightarrow>
                  user_send env w2 user (or_empty (message row)) (Some (bio, fname)))
           else user_send env w1 user (or_empty (message row)) None))"

text \<open>One turn of the loop over the due rows: the attempt, then \<open>sent\<close>, or \<open>failed\<close> and the line printed.\<close>

definition deliver :: "'w platform \<Rightarrow> schedule \<Rightarrow> 'w state \<Rightarrow> 'w state" where
  "deliver env row s =
     (case attempt env (world s) row of
        (Inr u, w') \<Rightarrow> s\<lparr>world := w', db := mark_sent (sid row) ''sent'' (db s)\<rparr>
      | (Inl e, w') \<Rightarrow>
          s\<lparr>world := w', db := mark_sent (sid row) ''failed'' (db s),
            printed := printed s @ [Failed_to_send (sid row) (user_id row) e]\<rparr>)"

definition process_due :: "'w platform \<Rightarrow> int \<Rightarrow> 'w state \<Rightarrow> error + 'w state" where
  "process_due env db_now s =
     (case fetch_due 30 db_now (db s) of
        Inl e \<Rightarrow> Inl e
      | Inr rows \<Rightarrow> Inr (foldl (\<lambda>s row. deliver env row s) s rows))"

text \<open>
  The result each row of a batch meets when the rows are attempted one after the
  other from the world \<open>w\<close>.
\<close>

fun outcomes :: "'w platform \<Rightarrow> 'w \<Rightarrow> schedule list \<Rightarrow> (error + unit) list" where
  "outcomes env w [] = []"
| "outcomes env w (row # rows) =
     (case attempt env w row of (res, w') \<Rightarrow> res # outcomes env w' rows)"

section \<open>The commands\<close>

text \<open>
  The follow-up messages of the commands: the invalid-time warning, the confirmation
  of a schedule (id, the user mentioned, the local time shown), \<open>Not found\<close>,
  \<open>Schedule is already {status}\<close> and \<open>Canceled schedule #{id}\<close>.
\<close>

datatype reply =
  Invalid_time
| Scheduled int int string
| Not_found
| Already string
| Canceled int

text \<open>
  \<open>slash_scheduledm\<close>: \<open>user\<close> is the id of the user chosen, \<open>file\<close> the URL of the
  attachment given, if any.
\<close>

definition slash_scheduledm ::
  "timezone \<Rightarrow> int \<Rightarrow> int \<Rightarrow> int \<Rightarrow> int list \<Rightarrow> string option \<Rightarrow> string option \<Rightarrow> store
     \<Rightarrow> reply \<times> store" where
  "slash_scheduledm tz clock db_now user time_str msg file st =
     (case parse_time_12h_to_utc tz clock time_str of
        Inl e \<Rightarrow> (Invalid_time, st)
      | Inr run_utc \<Rightarrow>
          let url = (case file of Some u \<Rightarrow> Some u | None \<Rightarrow> None);
              (new_id, st') = add_schedule db_now user run_utc msg url st
          in (Scheduled new_id user (pretty_time_local tz run_utc), st'))"

text \<open>
  \<open>slash_cancel\<close> awaits its lookup and then its \<open>UPDATE\<close>; the other tasks of the
  event loop run in between. \<open>others\<close> is what they do to the table after the lookup
  and before the \<open>UPDATE\<close> (the identity when none runs). The handler has no
  \<open>try\<close>: an exception leaves it, and no follow-up message is sent. The row count
  that \<open>cancel_schedule\<close> returns is not read.
\<close>

definition slash_cancel :: "int \<Rightarrow> (store \<Rightarrow> store) \<Rightarrow> store \<Rightarrow> error + (reply \<times> store)" where
  "slash_cancel schedule_id others st =
     (case get_schedule schedule_id st of
        Inl e \<Rightarrow> Inl e
      | Inr None \<Rightarrow> Inr (Not_found, st)
      | Inr (Some r) \<Rightarrow>
          if status r \<noteq> ''pending'' then Inr (Already (status r), st)
          else (case cancel_schedule schedule_id (others st) of
                  Inl e \<Rightarrow> Inl e
                | Inr (n, st') \<Rightarrow> Inr (Canceled schedule_id, st')))"

section \<open>Runs of the program\<close>

text \<open>
  The poll loop and the commands are tasks of one event loop: while \<open>process_due\<close>
  awaits the network for a row of its batch, a command may run its queries. A run is
  a sequence of the operations on the table that the program issues: the \<open>INSERT\<close> of
  \<open>add_schedule\<close>, the conditional \<open>UPDATE\<close> of \<open>cancel_schedule\<close>, and of the poll
  loop the \<open>SELECT\<close> of \<open>fetch_due\<close> that starts a tick and then, row by row, the
  delivery with its \<open>mark_sent\<close>. \<open>batch\<close> holds the rows the running tick has
  fetched and not yet handled; a tick starts only when the one before has finished.
\<close>

datatype operation =
  Add_schedule int int aware "string option" "string option"
| Cancel_schedule int
| Fetch_due int
| Deliver

record 'w program =
  prog :: "'w state"
  batch :: "schedule list"

definition step :: "'w platform \<Rightarrow> 'w program \<Rightarrow> operation \<Rightarrow> 'w program" where
  "step env p operation =
     (case operation of
        Add_schedule db_now uid run_at_utc msg url \<Rightarrow>
          p\<lparr>prog := (prog p)\<lparr>db := snd (add_schedule db_now uid run_at_utc msg url (db (prog p)))\<rparr>\<rparr>
      | Cancel_schedule schedule_id \<Rightarrow>
          (case cancel_schedule schedule_id (db (prog p)) of
             Inl e \<Rightarrow> p
           | Inr (n, st') \<Rightarrow> p\<lparr>prog := (prog p)\<lparr>db := st'\<rparr>\<rparr>)
      | Fetch_due db_now \<Rightarrow>
          (if batch p \<noteq> [] then p
           else (case fetch_due 30 db_now (db (prog p)) of
                   Inl e \<Rightarrow> p
                 | Inr rows \<Rightarrow> p\<lparr>batch := rows\<rparr>))
      | Deliver \<Rightarrow>
          (case batch p of
             [] \<Rightarrow> p
           | row # rows \<Rightarrow> p\<lparr>prog := deliver env row (prog p), batch := rows\<rparr>))"

text \<open>The states a run goes through, the first one included.\<close>

fun run :: "'w platform \<Rightarrow> 'w program \<Rightarrow> operation list \<Rightarrow> 'w program list" where
  "run env p [] = [p]"
| "run env p (operation # operations) = p # run env (step env p operation) operations"

text \<open>
  A world for examples: every call succeeds, and the world is the list of the direct
  messages sent (recipient, content, file).
\<close>

definition outbox_platform :: "((int \<times> string \<times> (string \<times> string) option) list) platform" where
  "outbox_platform =
     \<lparr>http_get = (\<lambda>w url. (Inr ''bytes'', w)),
      fetch_user = (\<lambda>w uid. (Inr uid, w)),
      user_send = (\<lambda>w user content file. (Inr (), w @ [(user, content, file)]))\<rparr>"

definition start :: "'w \<Rightarrow> 'w program" where
  "start w = \<lparr>prog = \<lparr>world = w, db = init_db, printed = []\<rparr>, batch = []\<rparr>"

text \<open>A table for examples: three pending rows that are due at 100, one sent, one not yet due.\<close>

definition ex_store :: store where
  "ex_store =
     \<lparr>table =
        [\<lparr>sid = 1, user_id = 7, message = Some ''c'', attachment_url = None, run_at = 30,
          status = ''pending'', created_at = 0\<rparr>,
         \<lparr>sid = 2, user_id = 7, message = Some ''a'', attachment_url = None, run_at = 10,
          status = ''pending'', created_at = 0\<rparr>,
         \<lparr>sid = 3, user_id = 8, message = None, attachment_url = Some ''http://h/f.png'',
          run_at = 5, status = ''sent'', created_at = 0\<rparr>,
         \<lparr>sid = 4, user_id = 8, message = Some ''b'', attachment_url = None, run_at = 20,
          status = ''pending'', created_at = 0\<rparr>,
         \<lparr>sid = 5, user_id = 9, message = Some ''later'', attachment_url = None, run_at = 200,
          status = ''pending'', created_at = 0\<rparr>],
      next_id = 6\<rparr>"

text \<open>
  An instant for examples, 2024-03-10 03:00 UTC (06:00 in Riyadh, 22:00 of 9 March in
  New York), and the UTC datetime of 14:30 in Riyadh on that day.
\<close>

definition ex_clock :: int where
  "ex_clock =
     to_usec \<lparr>year = 2024, month = 3, day = 10, hour = 3, minute = 0, second = 0, microsecond = 0\<rparr>"

definition ex_run_utc :: aware where
  "ex_run_utc =
     \<lparr>naive = \<lparr>year = 2024, month = 3, day = 10, hour = 11, minute = 30, second = 0,
               microsecond = 0\<rparr>,
      utcoff = 0\<rparr>"

text \<open>
  A later instant of the same day, with seconds and microseconds: 2024-03-10
  12:15:37.123456 UTC (15:15:37 in Riyadh); and the UTC datetime of 14:30 in Riyadh on
  the next day.
\<close>

definition ex_clock_late :: int where
  "ex_clock_late =
     to_usec \<lparr>year = 2024, month = 3, day = 10, hour = 12, minute = 15, second = 37, microsecond = 123456\<rparr>"

definition ex_run_late :: aware where
  "ex_run_late =
     \<lparr>naive = \<lparr>year = 2024, month = 3, day = 11, hour = 11, minute = 30, second = 0,
               microsecond = 0\<rparr>,
      utcoff = 0\<rparr>"

text \<open>
  A world in which some calls fail: the user 8 cannot be resolved and one URL gives
  404; and a table whose first four rows are due at 100.
\<close>

definition flaky_platform :: "((int \<times> string \<times> (string \<times> string) option) list) platform" where
  "flaky_platform =
     \<lparr>http_get = (\<lambda>w url. (if url = ''http://h/missing.png''
                             then Inl (ClientError ''404 Not Found'') else Inr ''bytes'', w)),
      fetch_user = (\<lambda>w uid. (if uid = 8 then Inl (DiscordException ''Unknown User'')
                              else Inr uid, w)),
      user_send = (\<lambda>w user content file. (Inr (), w @ [(user, content, file)]))\<rparr>"

definition ex_due_store :: store where
  "ex_due_store =
     \<lparr>table =
        [\<lparr>sid = 1, user_id = 7, message = Some ''a'', attachment_url = None, run_at = 10,
          status = ''pending'', created_at = 0\<rparr>,
         \<lparr>sid = 2, user_id = 8, message = Some ''b'', attachment_url = None, run_at = 20,
          status = ''pending'', created_at = 0\<rparr>,
         \<lparr>sid = 3, user_id = 7, message = Some ''c'', attachment_url = Some ''http://h/missing.png'',
          run_at = 30, status = ''pending'', created_at = 0\<rparr>,
         \<lparr>sid = 4, user_id = 9, message = None, attachment_url = Some ''http://h/f.png?x=1'',
          run_at = 40, status = ''pending'', created_at = 0\<rparr>,
         \<lparr>sid = 5, user_id = 9, message = Some ''later'', attachment_url = None, run_at = 200,
          status = ''pending'', created_at = 0\<rparr>],
      next_id = 6\<rparr>"

text \<open>
  Datetimes for examples in New York. At \<open>ex_clock\<close> it is 22:00 of 9 March there, at
  UTC-5, the evening before the clocks go forward; \<open>ny_run_local\<close> is 09:00 of that
  day and \<open>ny_run_utc\<close> is 14:00 UTC of 10 March. \<open>ex_clock_fall\<close> is 2024-11-04
  04:59:30 UTC, which is 23:59:30 of 3 November there, at UTC-5, the day the clocks went
  back; \<open>ny_fall_run_local\<close> is 00:00 of that day, at UTC-4, and \<open>ny_fall_run_utc\<close>
  is 04:00 UTC of 4 November.
\<close>

definition ny_now :: aware where
  "ny_now = \<lparr>naive = \<lparr>year = 2024, month = 3, day = 9, hour = 22, minute = 0, second = 0,
                        microsecond = 0\<rparr>, utcoff = - 300\<rparr>"

definition ny_run_local :: aware where
  "ny_run_local = \<lparr>naive = \<lparr>year = 2024, month = 3, day = 9, hour = 9, minute = 0, second = 0,
                        microsecond = 0\<rparr>, utcoff = - 300\<rparr>"

definition ny_run_utc :: aware where
  "ny_run_utc = \<lparr>naive = \<lparr>year = 2024, month = 3, day = 10, hour = 14, minute = 0, second = 0,
                        microsecond = 0\<rparr>, utcoff = 0\<rparr>"

definition ex_clock_fall :: int where
  "ex_clock_fall =
     to_usec \<lparr>year = 2024, month = 11, day = 4, hour = 4, minute = 59, second = 30, microsecond = 0\<rparr>"

definition ny_fall_now :: aware where
  "ny_fall_now = \<lparr>naive = \<lparr>year = 2024, month = 11, day = 3, hour = 23, minute = 59, second = 30,
                        microsecond = 0\<rparr>, utcoff = - 300\<rparr>"

definition ny_fall_run_local :: aware where
  "ny_fall_run_local = \<lparr>naive = \<lparr>year = 2024, month = 11, day = 3, hour = 0, minute = 0, second = 0,
                        microsecond = 0\<rparr>, utcoff = - 240\<rparr>"

definition ny_fall_run_utc :: aware where
  "ny_fall_run_utc = \<lparr>naive = \<lparr>year = 2024, month = 11, day = 4, hour = 4, minute = 0, second = 0,
                        microsecond = 0\<rparr>, utcoff = 0\<rparr>"

section \<open>The results of a batch\<close>

text \<open>
  The status a row is given after its attempt, and the lines printed for a batch whose
  attempts had the given results: one line for each failure, in the order of the rows.
\<close>

definition outcome_status :: "error + unit \<Rightarrow> string" where
  "outcome_status res = (case res of Inl e \<Rightarrow> ''failed'' | Inr u \<Rightarrow> ''sent'')"

fun failure_lines :: "schedule list \<Rightarrow> (error + unit) list \<Rightarrow> log_line list" where
  "failure_lines (row # rows) (Inl e # rs) =
     Failed_to_send (sid row) (user_id row) e # failure_lines rows rs"
| "failure_lines (row # rows) (Inr u # rs) = failure_lines rows rs"
| "failure_lines rows rs = []"

section \<open>Properties of the attachment fetcher\<close>

lemma split_not_Nil: "split c s \<noteq> []"
  by (induction s) (auto split: list.splits)

lemma hd_split: "hd (split c s) = takeWhile (\<lambda>x. x \<noteq> c) s"
  by (induction s) (auto split: list.splits simp: split_not_Nil)

lemma split_single_eq: "c \<notin> set s \<Longrightarrow> split c s = [s]"
  by (induction s) (auto split: list.splits)

lemma split_many: "c \<in> set s \<Longrightarrow> \<exists>p q ps. split c s = p # q # ps"
proof (induction s)
  case Nil
  then show ?case by simp
next
  case (Cons a s)
  show ?case
  proof (cases "a = c")
    case True
    obtain q ps where "split c s = q # ps"
      using split_not_Nil [of c s] by (cases "split c s") auto
    with True show ?thesis by simp
  next
    case False
    with Cons.prems have "c \<in> set s" by simp
    then obtain p q ps where "split c s = p # q # ps"
      using Cons.IH by blast
    with False show ?thesis by simp
  qed
qed

lemma takeWhile_snoc_stop: "\<not> P c \<Longrightarrow> takeWhile P (xs @ [c]) = takeWhile P xs"
  by (induction xs) auto

lemma last_split: "last (split c s) = rev (takeWhile (\<lambda>x. x \<noteq> c) (rev s))"
proof (induction s)
  case Nil
  then show ?case by simp
next
  case (Cons a s)
  show ?case
  proof (cases "a = c")
    case True
    then show ?thesis
      using Cons split_not_Nil [of c s] by (simp add: takeWhile_snoc_stop)
  next
    case False
    show ?thesis
    proof (cases "c \<in> set s")
      case True
      then obtain p q ps where sp: "split c s = p # q # ps"
        using split_many by blast
      have "takeWhile (\<lambda>x. x \<noteq> c) (rev s @ [a]) = takeWhile (\<lambda>x. x \<noteq> c) (rev s)"
        using True by (intro takeWhile_append1 [of c]) auto
      then show ?thesis using Cons False sp by simp
    next
      case no: False
      have tw: "takeWhile (\<lambda>x. x \<noteq> c) (rev s @ [a]) = rev s @ [a]"
        using False no by (intro takeWhile_eq_all_conv [THEN iffD2]) auto
      show ?thesis using no False by (simp add: split_single_eq tw)
    qed
  qed
qed

lemma after_last_append:
  "c \<in> set ys \<Longrightarrow> text_after_last c (xs @ ys) = text_after_last c ys"
  unfolding text_after_last_def by (simp add: takeWhile_append1 [of c])

lemma takeWhile_no_hash:
  "CHR ''#'' \<notin> set s \<Longrightarrow> takeWhile (\<lambda>c. c \<notin> set ''?#'') s = takeWhile (\<lambda>c. c \<noteq> CHR ''?'') s"
  by (induction s) auto


lemma filename_of_url_text:
  "filename_of_url url =
     (if text_after_last CHR ''/'' (text_before_first CHR ''?'' url) = [] then ''file''
      else text_after_last CHR ''/'' (text_before_first CHR ''?'' url))"
  by (simp add: filename_of_url_def text_after_last_def text_before_first_def hd_split last_split
      Let_def)

lemma before_query_path:
  assumes "CHR ''#'' \<notin> set url" and "CHR ''/'' \<in> set (url_path url)"
  shows "text_after_last CHR ''/'' (text_before_first CHR ''?'' url) =
         text_after_last CHR ''/'' (url_path url)"
proof -
  define scheme where "scheme = takeWhile (\<lambda>c. c \<notin> set '':/?#'') url"
  define rest where "rest = drop (length scheme) url"
  have "rest = dropWhile (\<lambda>c. c \<notin> set '':/?#'') url"
    unfolding rest_def scheme_def by (simp add: dropWhile_eq_drop)
  then have url: "url = scheme @ rest"
    unfolding scheme_def by simp
  have sch: "\<forall>c \<in> set scheme. c \<noteq> CHR ''?''"
    unfolding scheme_def by (auto dest: set_takeWhileD)
  show ?thesis
  proof (cases "take 3 rest = ''://''")
    case True
    define r where "r = drop 3 rest"
    define auth where "auth = takeWhile (\<lambda>c. c \<notin> set ''/?#'') r"
    define tail where "tail = dropWhile (\<lambda>c. c \<notin> set ''/?#'') r"
    have rest: "rest = ''://'' @ r"
      using True by (metis append_take_drop_id r_def)
    have r: "r = auth @ tail"
      by (simp add: auth_def tail_def)
    have au: "\<forall>c \<in> set auth. c \<noteq> CHR ''?''"
      unfolding auth_def by (auto dest: set_takeWhileD)
    have nh: "CHR ''#'' \<notin> set tail"
      using assms(1) url rest r by auto
    have "url_path url = takeWhile (\<lambda>c. c \<notin> set ''?#'') tail"
      unfolding url_path_def Let_def scheme_def [symmetric] rest_def [symmetric]
      by (simp only: True r_def [symmetric] tail_def [symmetric] refl if_True)
    also have "\<dots> = takeWhile (\<lambda>c. c \<noteq> CHR ''?'') tail"
      using nh by (rule takeWhile_no_hash)
    finally have path: "url_path url = takeWhile (\<lambda>c. c \<noteq> CHR ''?'') tail" .
    have "text_before_first CHR ''?'' url =
        scheme @ ''://'' @ auth @ takeWhile (\<lambda>c. c \<noteq> CHR ''?'') tail"
      unfolding text_before_first_def
      by (subst url, subst rest, subst r) (use sch au in \<open>simp add: takeWhile_append2\<close>)
    then have "text_before_first CHR ''?'' url = (scheme @ ''://'' @ auth) @ url_path url"
      by (simp add: path)
    then show ?thesis
      using assms(2) by (simp only: after_last_append)
  next
    case False
    have "url_path url = takeWhile (\<lambda>c. c \<notin> set ''?#'') url"
      unfolding url_path_def Let_def scheme_def [symmetric] rest_def [symmetric]
      by (simp only: False if_False)
    also have "\<dots> = takeWhile (\<lambda>c. c \<noteq> CHR ''?'') url"
      using assms(1) by (rule takeWhile_no_hash)
    finally have "url_path url = takeWhile (\<lambda>c. c \<noteq> CHR ''?'') url" .
    then show ?thesis
      by (simp add: text_before_first_def)
  qed
qed

text \<open>
  Claim C9 as stated fails: the filename is cut out of the text of the URL, not out of
  its path. For a URL without a path the filename is the host, where the path's last
  segment is empty and the claim gives \<open>file\<close>; a fragment stays in the filename.
\<close>

theorem filename_not_path_segment:
  "download_bytes outbox_platform [] ''https://example.com'' = (Inr (''bytes'', ''example.com''), []) \<and>
   path_filename ''https://example.com'' = ''file'' \<and>
   download_bytes outbox_platform [] ''http://h/a/b.png#frag?x=1'' = (Inr (''bytes'', ''b.png#frag''), []) \<and>
   path_filename ''http://h/a/b.png#frag?x=1'' = ''b.png''"
  by code_simp

text \<open>
  Claim C9, amended. Whenever \<open>download_bytes\<close> returns, the bytes are those the HTTP
  GET produced and the filename is the text after the last \<open>/\<close> of the text before the
  first \<open>?\<close> of the URL string, or \<open>file\<close> when that text is empty. For a URL without
  a fragment whose path holds a \<open>/\<close>, this is the last segment of the URL's path (the
  query string stripped), or \<open>file\<close> when that segment is empty.
\<close>

theorem download_bytes_filename:
  "download_bytes env w url = (Inr (bio, filename), w') \<Longrightarrow>
     http_get env w url = (Inr bio, w') \<and>
     filename =
       (if text_after_last CHR ''/'' (text_before_first CHR ''?'' url) = [] then ''file''
        else text_after_last CHR ''/'' (text_before_first CHR ''?'' url)) \<and>
     (CHR ''#'' \<notin> set url \<and> CHR ''/'' \<in> set (url_path url) \<longrightarrow>
        filename = path_filename url)"
  by (auto simp: download_bytes_def filename_of_url_text path_filename_def before_query_path
      split: prod.splits sum.splits)

theorem download_bytes_filename_witness:
  "download_bytes outbox_platform [] ''https://cdn.example.com/a/b/cat.png?ex=1&is=2''
     = (Inr (''bytes'', ''cat.png''), []) \<and>
   CHR ''#'' \<notin> set ''https://cdn.example.com/a/b/cat.png?ex=1&is=2'' \<and>
   CHR ''/'' \<in> set (url_path ''https://cdn.example.com/a/b/cat.png?ex=1&is=2'') \<and>
   path_filename ''https://cdn.example.com/a/b/cat.png?ex=1&is=2'' = ''cat.png'' \<and>
   download_bytes outbox_platform [] ''https://cdn.example.com/a/b/?ex=1''
     = (Inr (''bytes'', ''file''), [])"
proof -
  have a: "download_bytes outbox_platform [] ''https://cdn.example.com/a/b/cat.png?ex=1&is=2''
     = (Inr (''bytes'', ''cat.png''), [])"
    by code_simp
  have b: "CHR ''#'' \<notin> set ''https://cdn.example.com/a/b/cat.png?ex=1&is=2'' \<and>
   CHR ''/'' \<in> set (url_path ''https://cdn.example.com/a/b/cat.png?ex=1&is=2'')"
    by code_simp
  have c: "download_bytes outbox_platform [] ''https://cdn.example.com/a/b/?ex=1''
     = (Inr (''bytes'', ''file''), [])"
    by code_simp
  have d: "''cat.png'' = path_filename ''https://cdn.example.com/a/b/cat.png?ex=1&is=2''"
    using download_bytes_filename [OF a] b by blast
  show ?thesis
    by (intro conjI a c d [symmetric] b [THEN conjunct1] b [THEN conjunct2])
qed

section \<open>Properties of the table\<close>

lemma map_insort_key: "map f (insort_key f x ys) = insort (f x) (map f ys)"
  by (induction ys) auto

lemma map_sort_key: "map f (sort_key f xs) = sort (map f xs)"
  by (induction xs) (auto simp: map_insort_key)

text \<open>
  Claim C5. For every limit that is not negative \<open>fetch_due\<close> returns, and whatever it
  returns has at most \<open>limit\<close> rows, each a row of the table with status \<open>pending\<close>
  and \<open>run_at\<close> at or before the current instant, in ascending order of \<open>run_at\<close>:
  the \<open>run_at\<close> values returned are the first \<open>limit\<close> of the sorted \<open>run_at\<close>
  values of the due rows.
\<close>

theorem fetch_due_limit_due_ascending:
  "(0 \<le> limit \<longrightarrow> (\<exists>rows. fetch_due limit db_now st = Inr rows)) \<and>
   (\<forall>rows. fetch_due limit db_now st = Inr rows \<longrightarrow>
      int (length rows) \<le> limit \<and>
      (\<forall>r \<in> set rows. r \<in> set (table st) \<and> status r = ''pending'' \<and> run_at r \<le> db_now) \<and>
      sorted (map run_at rows) \<and>
      map run_at rows = take (nat limit) (sort (map run_at (filter (due db_now) (table st)))))"
proof -
  let ?due = "sort_key run_at (filter (due db_now) (table st))"
  have sub: "set (take (nat limit) ?due) \<subseteq> set (filter (due db_now) (table st))"
    using set_take_subset [of "nat limit" ?due] by simp
  have srt: "sorted (map run_at (take (nat limit) ?due))"
    by (simp add: take_map [symmetric] sorted_wrt_take)
  have "0 \<le> limit \<Longrightarrow> int (length (take (nat limit) ?due)) \<le> limit"
    by simp
  moreover have "map run_at (take (nat limit) ?due) =
      take (nat limit) (sort (map run_at (filter (due db_now) (table st))))"
    by (simp add: map_sort_key [symmetric] take_map)
  ultimately show ?thesis
    using sub srt by (auto simp: fetch_due_def due_def)
qed

theorem fetch_due_limit_due_ascending_witness:
  "(0::int) \<le> 2 \<and> fetch_due 2 100 ex_store = Inr [table ex_store ! 1, table ex_store ! 3] \<and>
   map run_at [table ex_store ! 1, table ex_store ! 3] = [10, 20] \<and>
   (\<exists>rows. fetch_due 3 100 ex_store = Inr rows \<and> map run_at rows = [10, 20, 30])"
  using fetch_due_limit_due_ascending [of 2 100 ex_store]
  by (simp add: fetch_due_def due_def ex_store_def)

section \<open>Properties of the time parser\<close>

lemma re_I_sound: "(i, r) \<in> set (re_I s) \<Longrightarrow> s = i @ r \<and> i \<in> set hour_numerals"
  by (cases s rule: re_I.cases) (auto simp: hour_numerals_def str_def split: if_splits)

lemma re_colon_sound: "r \<in> set (re_colon s) \<Longrightarrow> s = str '':'' @ r"
  by (cases s rule: re_colon.cases) (auto simp: str_def split: if_splits)

lemma re_M_sound: "(m, r) \<in> set (re_M s) \<Longrightarrow> s = m @ r \<and> minute_numeral m"
  by (cases s rule: re_M.cases) (auto split: if_splits)

lemma re_spaces_sound:
  "r \<in> set (re_spaces s) \<Longrightarrow> \<exists>ws. s = ws @ r \<and> ws \<noteq> [] \<and> list_all isspace ws"
proof (induction s)
  case Nil
  then show ?case by simp
next
  case (Cons a s)
  then have sp: "isspace a" and mem: "r \<in> set (re_spaces s) \<or> r = s"
    by (auto split: if_splits)
  from mem show ?case
  proof
    assume "r \<in> set (re_spaces s)"
    then obtain ws where "s = ws @ r" "list_all isspace ws"
      using Cons.IH by blast
    then have "a # s = (a # ws) @ r \<and> a # ws \<noteq> [] \<and> list_all isspace (a # ws)"
      using sp by simp
    then show ?thesis by blast
  next
    assume "r = s"
    then have "a # s = [a] @ r \<and> [a] \<noteq> [] \<and> list_all isspace [a]"
      using sp by simp
    then show ?thesis by blast
  qed
qed

lemma re_p_sound:
  "(p, r) \<in> set (re_p s) \<Longrightarrow> s = p @ r \<and> (map lower p = str ''am'' \<or> map lower p = str ''pm'')"
  by (cases s rule: re_p.cases) (auto split: if_splits)

lemma format_regex_matches_mem:
  "((i, m, p), rest) \<in> set (format_regex_matches s) \<Longrightarrow>
   \<exists>r1 r2 r3 r4. (i, r1) \<in> set (re_I s) \<and> r2 \<in> set (re_colon r1) \<and> (m, r3) \<in> set (re_M r2)
    \<and> r4 \<in> set (re_spaces r3) \<and> (p, rest) \<in> set (re_p r4)"
  unfolding format_regex_matches_def by fastforce

lemma format_regex_match_first:
  "format_regex_match s = Some found \<Longrightarrow> found \<in> set (format_regex_matches s)"
  by (auto simp: format_regex_match_def split: list.splits)

lemma strptime_matched:
  "strptime s = Inr hm \<Longrightarrow> \<exists>i m p. format_regex_match s = Some ((i, m, p), [])"
  by (auto simp: strptime_def split: option.splits prod.splits if_splits)

lemma format_regex_match_sound:
  assumes "format_regex_match s = Some ((i, m, p), rest)"
  shows "\<exists>ws. s = i @ str '':'' @ m @ ws @ p @ rest \<and> i \<in> set hour_numerals \<and>
           minute_numeral m \<and> ws \<noteq> [] \<and> list_all isspace ws \<and>
           (map lower p = str ''am'' \<or> map lower p = str ''pm'')"
proof -
  from assms have "((i, m, p), rest) \<in> set (format_regex_matches s)"
    by (rule format_regex_match_first)
  then obtain r1 r2 r3 r4 where
    a: "(i, r1) \<in> set (re_I s)" and b: "r2 \<in> set (re_colon r1)" and c: "(m, r3) \<in> set (re_M r2)"
    and d: "r4 \<in> set (re_spaces r3)" and e: "(p, rest) \<in> set (re_p r4)"
    using format_regex_matches_mem by blast
  from re_spaces_sound [OF d] obtain ws where
    ws: "r3 = ws @ r4" "ws \<noteq> []" "list_all isspace ws" by blast
  have i: "s = i @ r1" "i \<in> set hour_numerals"
    using re_I_sound [OF a] by simp_all
  have m: "r2 = m @ r3" "minute_numeral m"
    using re_M_sound [OF c] by simp_all
  have p: "r4 = p @ rest" "map lower p = str ''am'' \<or> map lower p = str ''pm''"
    using re_p_sound [OF e] by simp_all
  have "s = i @ str '':'' @ m @ ws @ p @ rest"
    by (simp add: i(1) re_colon_sound [OF b] m(1) ws(1) p(1))
  with i(2) m(2) ws(2,3) p(2) show ?thesis
    by (intro exI [of _ ws] conjI)
qed

lemma strptime_format:
  assumes "strptime s = Inr hm"
  shows "\<exists>h m ws p. s = h @ str '':'' @ m @ ws @ p \<and>
        h \<in> set hour_numerals \<and> minute_numeral m \<and>
        ws \<noteq> [] \<and> list_all isspace ws \<and> (map lower p = str ''am'' \<or> map lower p = str ''pm'')"
proof -
  from assms obtain i m p where "format_regex_match s = Some ((i, m, p), [])"
    using strptime_matched by blast
  from format_regex_match_sound [OF this] obtain ws where
    H: "s = i @ str '':'' @ m @ ws @ p @ [] \<and> i \<in> set hour_numerals \<and>
        minute_numeral m \<and> ws \<noteq> [] \<and> list_all isspace ws \<and>
        (map lower p = str ''am'' \<or> map lower p = str ''pm'')"
    by (elim exE)
  show ?thesis
    using H by (intro exI [of _ i] exI [of _ m] exI [of _ ws] exI [of _ p]) simp
qed

lemma format_has_space: "twelve_hour_format s \<Longrightarrow> \<exists>c \<in> set (strip s). isspace c"
proof -
  assume "twelve_hour_format s"
  then obtain h m ws p where eq: "strip s = h @ str '':'' @ m @ ws @ p"
    and ws: "ws \<noteq> []" "list_all isspace ws"
    unfolding twelve_hour_format_def by blast
  from ws have "hd ws \<in> set ws" "isspace (hd ws)"
    by (cases ws; simp)+
  then show ?thesis using eq by auto
qed

lemma not_format_25_99: "\<not> twelve_hour_format (str ''25:99'')"
proof
  assume "twelve_hour_format (str ''25:99'')"
  from format_has_space [OF this] show False
    by (simp add: strip_def isspace_def str_def)
qed

text \<open>
  Claim C7 as stated fails: \<open>strptime\<close> accepts strings outside the strict format. A
  minute written with one digit, or with a decimal digit of another script (here U+0660,
  the Arabic-Indic zero), is parsed, and \<open>slash_scheduledm\<close> creates a record.
\<close>

theorem lax_time_accepted:
  "\<not> strict_format (str ''2:5 PM'') \<and>
   strptime (strip (str ''2:5 PM'')) = Inr (14, 5) \<and>
   length (table (snd (slash_scheduledm riyadh ex_clock ex_clock 42 (str ''2:5 PM'') (Some ''hi'')
                         None ex_store))) = length (table ex_store) + 1 \<and>
   \<not> strict_format (str ''02:3'' @ [1632] @ str '' PM'') \<and>
   strptime (strip (str ''02:3'' @ [1632] @ str '' PM'')) = Inr (14, 30) \<and>
   strict_format (str ''02:30 PM'')"
  by code_simp

text \<open>
  Claim C7, amended. For every input string that does not match the format
  \<open>%I:%M %p\<close> as \<open>strptime\<close> reads it (after the white space around the string is
  stripped: hour 1 to 12 in one or two digits, a colon, minute 0 to 59 in one or two
  decimal digits, white space, AM/PM marker in either case), \<open>parse_time_12h_to_utc\<close>
  fails with a \<open>ValueError\<close>, and \<open>slash_scheduledm\<close> then replies with the
  invalid-time warning and returns the table as it was: no record is created. The
  input \<open>25:99\<close> is one such string.
\<close>

theorem invalid_time_rejected:
  assumes "\<not> twelve_hour_format time_str"
  shows "(\<exists>e. parse_time_12h_to_utc tz clock time_str = Inl (ValueError e)) \<and>
         slash_scheduledm tz clock db_now user time_str msg file st = (Invalid_time, st)"
proof -
  have "\<exists>e. strptime (strip time_str) = Inl e"
  proof (cases "strptime (strip time_str)")
    case (Inl e)
    then show ?thesis by blast
  next
    case (Inr hm)
    from strptime_format [OF this] assms show ?thesis
      unfolding twelve_hour_format_def by blast
  qed
  then show ?thesis
    by (auto simp: parse_time_12h_to_utc_def slash_scheduledm_def)
qed

theorem invalid_time_rejected_witness:
  "\<not> twelve_hour_format (str ''25:99'') \<and>
   slash_scheduledm riyadh 0 0 42 (str ''25:99'') (Some ''hi'') None ex_store = (Invalid_time, ex_store) \<and>
   length (table (snd (slash_scheduledm riyadh 0 0 42 (str ''25:99'') (Some ''hi'') None ex_store)))
     = length (table ex_store)"
  using invalid_time_rejected [OF not_format_25_99, of riyadh 0 0 42 "Some ''hi''" None ex_store]
    not_format_25_99
  by simp

section \<open>Properties of the cancel command\<close>

lemma find_map_cancel:
  "find (\<lambda>r. sid r = i) (map (\<lambda>r. if sid r = j \<and> status r = ''pending'' then r\<lparr>status := ''canceled''\<rparr> else r) xs)
   = map_option (\<lambda>r. if sid r = j \<and> status r = ''pending'' then r\<lparr>status := ''canceled''\<rparr> else r) (find (\<lambda>r. sid r = i) xs)"
  by (induction xs) auto

lemma find_sid: "find (\<lambda>r. sid r = i) xs = Some r \<Longrightarrow> sid r = i"
  by (induction xs) (auto split: if_splits)

text \<open>
  Claim C4 as stated fails at two places. An id outside the 32-bit range of the column,
  which is an unknown id, makes the lookup raise: the command sends no not-found reply.
  And when the poll loop marks a record sent between the lookup and the \<open>UPDATE\<close> of
  the command, the record, no longer pending, is left unchanged, but the reply is the
  confirmation of a cancellation.
\<close>

theorem slash_cancel_no_reply_and_stale_reply:
  "list_all (\<lambda>r. sid r \<noteq> 3000000000) (table ex_store) \<and>
   slash_cancel 3000000000 (\<lambda>st. st) ex_store = Inl (DataError ''value out of int32 range'') \<and>
   map_option status (find (\<lambda>r. sid r = 2) (table ex_store)) = Some ''pending'' \<and>
   slash_cancel 2 (mark_sent 2 ''sent'') ex_store = Inr (Canceled 2, mark_sent 2 ''sent'' ex_store) \<and>
   map_option status (find (\<lambda>r. sid r = 2) (table (mark_sent 2 ''sent'' ex_store))) = Some ''sent''"
  by code_simp

text \<open>
  Claim C4, amended. For every schedule id within the range of the column \<open>id\<close> (a
  32-bit integer) the lookup returns, and: when it finds no record, \<open>slash_cancel\<close>
  replies \<open>Not found\<close> and leaves the table as it is; when the record it reads is not
  pending, it replies with the status it read, a reply other than the confirmation of
  a cancellation, and leaves the table as it is; when the record it reads is pending,
  it runs the conditional \<open>UPDATE\<close> of \<open>cancel_schedule\<close> on the table as the other
  tasks left it and replies with the confirmation; when no other task ran in between,
  the record is canceled by it. The conditional \<open>UPDATE\<close>, on any table, changes
  only rows with that id whose status is \<open>pending\<close>, and only their status, to
  \<open>canceled\<close>: a row that is already canceled, sent or failed is never changed.
\<close>

theorem slash_cancel_cases:
  assumes "int4_range i"
  shows
  "(\<exists>found. get_schedule i st = Inr found) \<and>
   (get_schedule i st = Inr None \<longrightarrow> slash_cancel i others st = Inr (Not_found, st)) \<and>
   (\<forall>r. get_schedule i st = Inr (Some r) \<and> status r \<noteq> ''pending'' \<longrightarrow>
        slash_cancel i others st = Inr (Already (status r), st) \<and>
        Already (status r) \<noteq> Canceled i) \<and>
   (\<forall>r. get_schedule i st = Inr (Some r) \<and> status r = ''pending'' \<longrightarrow>
        (\<exists>n st'. cancel_schedule i (others st) = Inr (n, st') \<and>
           slash_cancel i others st = Inr (Canceled i, st')) \<and>
        (\<exists>n st'. cancel_schedule i st = Inr (n, st') \<and>
           slash_cancel i (\<lambda>st. st) st = Inr (Canceled i, st') \<and>
           get_schedule i st' = Inr (Some (r\<lparr>status := ''canceled''\<rparr>)))) \<and>
   (\<forall>st0. \<exists>n st'. cancel_schedule i st0 = Inr (n, st') \<and>
        next_id st' = next_id st0 \<and> length (table st') = length (table st0) \<and>
        (\<forall>k < length (table st0).
           (if sid (table st0 ! k) = i \<and> status (table st0 ! k) = ''pending''
            then table st' ! k = (table st0 ! k)\<lparr>status := ''canceled''\<rparr>
            else table st' ! k = table st0 ! k)))"
  using assms
  by (auto simp: slash_cancel_def get_schedule_def cancel_schedule_def find_map_cancel
      dest: find_sid)

theorem slash_cancel_cases_witness:
  "int4_range 9 \<and> get_schedule 9 ex_store = Inr None \<and>
   slash_cancel 9 (mark_sent 2 ''sent'') ex_store = Inr (Not_found, ex_store) \<and>
   int4_range 3 \<and> map_sum id (map_option status) (get_schedule 3 ex_store) = Inr (Some ''sent'') \<and>
   slash_cancel 3 (\<lambda>st. st) ex_store = Inr (Already ''sent'', ex_store) \<and>
   int4_range 2 \<and> map_sum id (map_option status) (get_schedule 2 ex_store) = Inr (Some ''pending'') \<and>
   map_sum id (\<lambda>(rep, st'). (rep, map_sum id (map_option status) (get_schedule 2 st')))
     (slash_cancel 2 (\<lambda>st. st) ex_store) = Inr (Canceled 2, Inr (Some ''canceled''))"
proof -
  have r: "int4_range 9"
    by code_simp
  have "int4_range 9 \<and> get_schedule 9 ex_store = Inr None \<and>
   int4_range 3 \<and> map_sum id (map_option status) (get_schedule 3 ex_store) = Inr (Some ''sent'') \<and>
   slash_cancel 3 (\<lambda>st. st) ex_store = Inr (Already ''sent'', ex_store) \<and>
   int4_range 2 \<and> map_sum id (map_option status) (get_schedule 2 ex_store) = Inr (Some ''pending'') \<and>
   map_sum id (\<lambda>(rep, st'). (rep, map_sum id (map_option status) (get_schedule 2 st')))
     (slash_cancel 2 (\<lambda>st. st) ex_store) = Inr (Canceled 2, Inr (Some ''canceled''))"
    by code_simp
  then show ?thesis
    using slash_cancel_cases [OF r, of ex_store "mark_sent 2 ''sent''"] by simp
qed

section \<open>Properties of the schedule command\<close>

lemma parse_ex: "parse_time_12h_to_utc riyadh ex_clock (str ''02:30 PM'') = Inr ex_run_utc"
  by code_simp

text \<open>
  Claim C8 as stated fails: \<open>slash_scheduledm\<close> has no check on the message and the
  file, and a request with neither creates a record with both fields absent.
\<close>

theorem scheduledm_both_absent:
  "map (\<lambda>r. (sid r, message r, attachment_url r, status r))
     (table (snd (slash_scheduledm riyadh ex_clock ex_clock 42 (str ''02:30 PM'') None None init_db)))
   = [(1, None, None, ''pending'')]"
  by code_simp

text \<open>
  Claim C8, amended. Every record that \<open>slash_scheduledm\<close> creates holds the message
  and the attachment URL of the request as they were given, each absent exactly when
  the request left it out (so both are absent when the request has neither); the record
  is appended with the next id, the status \<open>pending\<close> and the instant the time parser
  returned.
\<close>

theorem scheduledm_stores_request:
  "parse_time_12h_to_utc tz clock time_str = Inr run_utc \<Longrightarrow>
   slash_scheduledm tz clock db_now user time_str msg file st =
     (Scheduled (next_id st) user (pretty_time_local tz run_utc),
      st\<lparr>table := table st @
            [\<lparr>sid = next_id st, user_id = user, message = msg, attachment_url = file,
              run_at = instant run_utc, status = ''pending'', created_at = db_now\<rparr>],
         next_id := next_id st + 1\<rparr>)"
  by (simp add: slash_scheduledm_def add_schedule_def split: option.splits)

theorem scheduledm_stores_request_witness:
  "parse_time_12h_to_utc riyadh ex_clock (str ''02:30 PM'') = Inr ex_run_utc \<and>
   snd (slash_scheduledm riyadh ex_clock ex_clock 42 (str ''02:30 PM'') (Some ''hi'')
          (Some ''http://h/f.png'') init_db)
     = \<lparr>table =
          [\<lparr>sid = 1, user_id = 42, message = Some ''hi'',
            attachment_url = Some ''http://h/f.png'', run_at = instant ex_run_utc,
            status = ''pending'', created_at = ex_clock\<rparr>],
        next_id = 2\<rparr>"
  using scheduledm_stores_request [OF parse_ex, of ex_clock 42 "Some ''hi''"
      "Some ''http://h/f.png''" init_db] parse_ex
  by (simp add: init_db_def)

section \<open>Properties of the time converter\<close>

lemma to_usec_whole_minute:
  assumes "second d = 0" and "microsecond d = 0"
  shows "to_usec d mod 60000000 = 0"
proof -
  have "to_usec d = ((toordinal d * 24 + hour d) * 60 + minute d) * 60000000"
    using assms by (simp add: to_usec_def)
  then show ?thesis by simp
qed

lemma of_usec_second: "second (of_usec u) = u mod 60000000 div 1000000"
  by (simp add: of_usec_def split: prod.splits)

lemma of_usec_microsecond: "microsecond (of_usec u) = u mod 1000000"
  by (simp add: of_usec_def split: prod.splits)

lemma mod_minute_usec:
  assumes "(u::int) mod 60000000 = 0"
  shows "u mod 1000000 = 0"
proof -
  have "(60000000::int) dvd u"
    using assms by (simp add: dvd_eq_mod_eq_0)
  moreover have "(1000000::int) dvd 60000000"
    by simp
  ultimately have "(1000000::int) dvd u"
    using dvd_trans by blast
  then show ?thesis by simp
qed

lemma of_usec_whole_minute:
  "u mod 60000000 = 0 \<Longrightarrow> second (of_usec u) = 0 \<and> microsecond (of_usec u) = 0"
  by (simp add: of_usec_second of_usec_microsecond mod_minute_usec)

lemma minutes_mod: "(a::int) mod 60000000 = 0 \<Longrightarrow> (a + k * 60000000) mod 60000000 = 0"
  by simp

lemma minutes_mod_diff: "(a::int) mod 60000000 = 0 \<Longrightarrow> (a - k * 60000000) mod 60000000 = 0"
  using minutes_mod [of a "- k"] by simp

lemma parse_time_steps:
  assumes "strptime (strip time_str) = Inr (h, m)"
    and "datetime_now tz clock = now_local"
    and "localize tz \<lparr>year = year (naive now_local), month = month (naive now_local),
           day = day (naive now_local), hour = h, minute = m, second = 0, microsecond = 0\<rparr> = run_local"
    and "aware_le run_local now_local = past"
    and "astimezone UTC (if past then add_days run_local 1 else run_local) = run_utc"
  shows "parse_time_12h_to_utc tz clock time_str = Inr run_utc"
proof -
  have "parse_time_12h_to_utc tz clock time_str =
      Inr (astimezone UTC (if past then add_days run_local 1 else run_local))"
    unfolding assms(4) [symmetric] assms(3) [symmetric] assms(2) [symmetric]
    by (simp add: parse_time_12h_to_utc_def assms(1) Let_def split del: if_split)
  then show ?thesis
    by (simp only: assms(5))
qed

lemma parse_ex_late: "parse_time_12h_to_utc riyadh ex_clock_late (str ''02:30 PM'') = Inr ex_run_late"
proof (rule parse_time_steps)
  show "strptime (strip (str ''02:30 PM'')) = Inr (14, 30)"
    by code_simp
  show "datetime_now riyadh ex_clock_late =
      \<lparr>naive = \<lparr>year = 2024, month = 3, day = 10, hour = 15, minute = 15, second = 37,
                microsecond = 123456\<rparr>, utcoff = 180\<rparr>"
    by code_simp
  show "localize riyadh \<lparr>year = year (naive \<lparr>naive = \<lparr>year = 2024, month = 3, day = 10, hour = 15, minute = 15, second = 37,
                microsecond = 123456\<rparr>, utcoff = 180\<rparr>), month = month (naive \<lparr>naive = \<lparr>year = 2024, month = 3, day = 10, hour = 15, minute = 15, second = 37,
                microsecond = 123456\<rparr>, utcoff = 180\<rparr>),
           day = day (naive \<lparr>naive = \<lparr>year = 2024, month = 3, day = 10, hour = 15, minute = 15, second = 37,
                microsecond = 123456\<rparr>, utcoff = 180\<rparr>), hour = 14, minute = 30, second = 0, microsecond = 0\<rparr> =
        \<lparr>naive = \<lparr>year = 2024, month = 3, day = 10, hour = 14, minute = 30, second = 0,
                microsecond = 0\<rparr>, utcoff = 180\<rparr>"
    by code_simp
  show "aware_le \<lparr>naive = \<lparr>year = 2024, month = 3, day = 10, hour = 14, minute = 30, second = 0,
                microsecond = 0\<rparr>, utcoff = 180\<rparr> \<lparr>naive = \<lparr>year = 2024, month = 3, day = 10, hour = 15, minute = 15, second = 37,
                microsecond = 123456\<rparr>, utcoff = 180\<rparr> = True"
    by code_simp
  show "astimezone UTC (if True then add_days \<lparr>naive = \<lparr>year = 2024, month = 3, day = 10, hour = 14, minute = 30, second = 0,
                microsecond = 0\<rparr>, utcoff = 180\<rparr> 1 else \<lparr>naive = \<lparr>year = 2024, month = 3, day = 10, hour = 14, minute = 30, second = 0,
                microsecond = 0\<rparr>, utcoff = 180\<rparr>) = ex_run_late"
    by code_simp
qed

text \<open>
  Claim C10. Whenever \<open>parse_time_12h_to_utc\<close> returns, in any timezone and at any
  current instant (whatever its seconds and microseconds), the UTC datetime it returns
  has second 0 and microsecond 0, and the instant it denotes, which is what
  \<open>add_schedule\<close> stores as \<open>run_at\<close>, is a whole number of minutes.
\<close>

theorem run_utc_whole_minute:
  assumes "parse_time_12h_to_utc tz clock time_str = Inr run_utc"
  shows "second (naive run_utc) = 0 \<and> microsecond (naive run_utc) = 0 \<and> utcoff run_utc = 0 \<and>
         instant run_utc mod 60000000 = 0"
proof -
  from assms obtain h m where hm: "strptime (strip time_str) = Inr (h, m)"
    by (auto simp: parse_time_12h_to_utc_def split: sum.splits)
  define now_local where "now_local = datetime_now tz clock"
  define target where "target =
    \<lparr>year = year (naive now_local), month = month (naive now_local),
     day = day (naive now_local), hour = h, minute = m, second = 0, microsecond = 0\<rparr>"
  define run0 where "run0 = localize tz target"
  define run1 where "run1 = (if aware_le run0 now_local then add_days run0 1 else run0)"
  have res: "astimezone UTC run1 = run_utc"
    using assms hm unfolding run1_def run0_def target_def now_local_def
    by (simp add: parse_time_12h_to_utc_def Let_def split del: if_split)
  have t0: "to_usec target mod 60000000 = 0"
    by (rule to_usec_whole_minute) (simp_all add: target_def)
  have t1: "to_usec (of_usec (to_usec target + 1 * 86400000000)) mod 60000000 = 0"
  proof (rule to_usec_whole_minute)
    have "(to_usec target + 1440 * 60000000) mod 60000000 = 0"
      using t0 by (rule minutes_mod)
    then have "(to_usec target + 1 * 86400000000) mod 60000000 = 0" by simp
    from of_usec_whole_minute [OF this]
    show "second (of_usec (to_usec target + 1 * 86400000000)) = 0"
      and "microsecond (of_usec (to_usec target + 1 * 86400000000)) = 0"
      by simp_all
  qed
  have "to_usec (naive run1) mod 60000000 = 0"
    using t0 t1 by (simp add: run1_def run0_def localize_def add_days_def)
  then have i1: "instant run1 mod 60000000 = 0"
    unfolding instant_def by (rule minutes_mod_diff)
  have nv: "naive run_utc = of_usec (instant run1)" and off: "utcoff run_utc = 0"
    by (simp_all add: res [symmetric] astimezone_def from_instant_def UTC_def)
  have sm: "second (naive run_utc) = 0 \<and> microsecond (naive run_utc) = 0"
    unfolding nv using i1 by (rule of_usec_whole_minute)
  have "to_usec (naive run_utc) mod 60000000 = 0"
    using sm by (intro to_usec_whole_minute) simp_all
  then have "instant run_utc mod 60000000 = 0"
    by (simp add: instant_def off)
  with sm off show ?thesis by simp
qed

lemma ex_clock_late_seconds:
  "second (naive (datetime_now riyadh ex_clock_late)) = 37 \<and>
   microsecond (naive (datetime_now riyadh ex_clock_late)) = 123456"
  by code_simp

theorem run_utc_whole_minute_witness:
  "second (naive (datetime_now riyadh ex_clock_late)) = 37 \<and>
   microsecond (naive (datetime_now riyadh ex_clock_late)) = 123456 \<and>
   parse_time_12h_to_utc riyadh ex_clock_late (str ''02:30 PM'') = Inr ex_run_late \<and>
   second (naive ex_run_late) = 0 \<and> microsecond (naive ex_run_late) = 0 \<and>
   instant ex_run_late mod 60000000 = 0"
  using run_utc_whole_minute [OF parse_ex_late] parse_ex_late ex_clock_late_seconds
  by simp

section \<open>Properties of the poll loop\<close>

lemma find_map_status:
  "find (\<lambda>r. sid r = i) (map (\<lambda>r. if sid r = j then r\<lparr>status := x\<rparr> else r) xs) =
     (if i = j then map_option (\<lambda>r. r\<lparr>status := x\<rparr>) (find (\<lambda>r. sid r = i) xs)
      else find (\<lambda>r. sid r = i) xs)"
  by (induction xs) auto

lemma find_mark_sent:
  "find (\<lambda>r. sid r = i) (table (mark_sent j x st)) =
     (if i = j then map_option (\<lambda>r. r\<lparr>status := x\<rparr>) (find (\<lambda>r. sid r = i) (table st))
      else find (\<lambda>r. sid r = i) (table st))"
  unfolding mark_sent_def by (simp add: find_map_status del: find.simps)

lemma deliver_db:
  "db (deliver env row s) =
     mark_sent (sid row) (outcome_status (fst (attempt env (world s) row))) (db s)"
  by (simp add: deliver_def outcome_status_def split: prod.splits sum.splits)

lemma deliver_world: "world (deliver env row s) = snd (attempt env (world s) row)"
  by (simp add: deliver_def split: prod.splits sum.splits)

lemma deliver_printed:
  "printed (deliver env row s) =
     printed s @ failure_lines [row] [fst (attempt env (world s) row)]"
  by (simp add: deliver_def split: prod.splits sum.splits)

lemma outcomes_Cons:
  "outcomes env w (row # rows) =
     fst (attempt env w row) # outcomes env (snd (attempt env w row)) rows"
  by (simp split: prod.splits)

lemma length_outcomes: "length (outcomes env w rows) = length rows"
  by (induction rows arbitrary: w) (simp_all split: prod.splits)

lemma foldl_deliver_other:
  "i \<notin> sid ` set rows \<Longrightarrow>
   find (\<lambda>r. sid r = i) (table (db (foldl (\<lambda>s row. deliver env row s) s rows))) = find (\<lambda>r. sid r = i) (table (db s))"
  by (induction rows arbitrary: s) (simp_all add: deliver_db find_mark_sent)

lemma foldl_deliver_printed:
  "printed (foldl (\<lambda>s row. deliver env row s) s rows) =
     printed s @ failure_lines rows (outcomes env (world s) rows)"
proof (induction rows arbitrary: s)
  case Nil
  then show ?case by simp
next
  case (Cons row rows)
  show ?case
    by (cases "fst (attempt env (world s) row)")
       (simp_all add: Cons.IH deliver_printed deliver_world outcomes_Cons del: outcomes.simps)
qed

lemma foldl_deliver_status:
  "distinct (map sid rows) \<Longrightarrow> k < length rows \<Longrightarrow>
   find (\<lambda>r. sid r = (sid (rows ! k))) (table (db (foldl (\<lambda>s row. deliver env row s) s rows))) =
     map_option (\<lambda>r. r\<lparr>status := outcome_status (outcomes env (world s) rows ! k)\<rparr>)
       (find (\<lambda>r. sid r = (sid (rows ! k))) (table (db s)))"
proof (induction rows arbitrary: s k)
  case Nil
  then show ?case by simp
next
  case (Cons row rows)
  show ?case
  proof (cases k)
    case 0
    have "sid row \<notin> sid ` set rows"
      using Cons.prems(1) by auto
    then show ?thesis
      using 0 by (simp add: foldl_deliver_other deliver_db find_mark_sent outcomes_Cons
          del: outcomes.simps)
  next
    case (Suc j)
    then have j: "j < length rows"
      using Cons.prems by auto
    then have "sid (rows ! j) \<in> sid ` set rows"
      by simp
    then have ne: "sid (rows ! j) \<noteq> sid row"
      using Cons.prems(1) by auto
    have "distinct (map sid rows)"
      using Cons.prems(1) by simp
    from Cons.IH [OF this j, of "deliver env row s"] show ?thesis
      using Suc ne
      by (simp add: deliver_db deliver_world find_mark_sent outcomes_Cons
          del: outcomes.simps)
  qed
qed

lemma find_distinct_sid:
  "distinct (map sid xs) \<Longrightarrow> b \<in> set xs \<Longrightarrow> find (\<lambda>r. sid r = sid b) xs = Some b"
  by (induction xs) (auto simp: image_iff)

lemma fetch_due_rows:
  assumes "fetch_due limit db_now st = Inr rows" and "distinct (map sid (table st))"
  shows "set rows \<subseteq> set (table st)" and "distinct (map sid rows)"
proof -
  let ?due = "sort_key run_at (filter (due db_now) (table st))"
  have b: "rows = take (nat limit) ?due"
    using assms(1) by (simp add: fetch_due_def split: if_splits)
  have "set rows \<subseteq> set ?due"
    unfolding b by (rule set_take_subset)
  then show sub: "set rows \<subseteq> set (table st)"
    by auto
  have "distinct (table st)" and inj: "inj_on sid (set (table st))"
    using assms(2) by (simp_all add: distinct_map)
  then have "distinct rows"
    unfolding b by simp
  moreover have "inj_on sid (set rows)"
    using inj sub by (rule inj_on_subset)
  ultimately show "distinct (map sid rows)"
    by (simp add: distinct_map)
qed

text \<open>
  Claim C3. On a table whose ids are distinct (\<open>id\<close> is the primary key), one tick
  of the poll loop fetches its batch and returns: no exception of an attempt leaves
  \<open>process_due\<close>. Every row of the batch is attempted, in the world the attempts
  before it left, whatever their results were; after the tick the row with that id is
  the fetched row with status \<open>failed\<close> when its attempt (resolution of the user,
  download of the attachment, or send) raised, and with status \<open>sent\<close> when it did
  not. For each failure, and for nothing else, one line with the record id, the
  recipient id and the exception is printed, in the order of the batch. Rows outside
  the batch are as they were.
\<close>

theorem process_due_isolates_failures:
  assumes "distinct (map sid (table (db s)))"
  shows "\<exists>rows s'. fetch_due 30 db_now (db s) = Inr rows \<and> process_due env db_now s = Inr s' \<and>
     length (outcomes env (world s) rows) = length rows \<and>
     (\<forall>k < length rows.
        find (\<lambda>r. sid r = (sid (rows ! k))) (table (db s')) =
          Some ((rows ! k)\<lparr>status := outcome_status (outcomes env (world s) rows ! k)\<rparr>)) \<and>
     printed s' = printed s @ failure_lines rows (outcomes env (world s) rows) \<and>
     (\<forall>i. i \<notin> sid ` set rows \<longrightarrow> find (\<lambda>r. sid r = i) (table (db s')) = find (\<lambda>r. sid r = i) (table (db s)))"
proof -
  obtain rows where f: "fetch_due 30 db_now (db s) = Inr rows"
    by (simp add: fetch_due_def)
  define s' where "s' = foldl (\<lambda>s row. deliver env row s) s rows"
  have p: "process_due env db_now s = Inr s'"
    by (simp add: process_due_def f s'_def)
  note fr = fetch_due_rows [OF f assms]
  have st: "find (\<lambda>r. sid r = (sid (rows ! k))) (table (db s')) =
      Some ((rows ! k)\<lparr>status := outcome_status (outcomes env (world s) rows ! k)\<rparr>)"
    if "k < length rows" for k
  proof -
    have "rows ! k \<in> set (table (db s))"
      using that fr(1) by auto
    then have "find (\<lambda>r. sid r = (sid (rows ! k))) (table (db s)) = Some (rows ! k)"
      using assms by (intro find_distinct_sid)
    then show ?thesis
      unfolding s'_def by (simp add: foldl_deliver_status [OF fr(2) that])
  qed
  have "printed s' = printed s @ failure_lines rows (outcomes env (world s) rows)"
    unfolding s'_def by (rule foldl_deliver_printed)
  moreover have "\<forall>i. i \<notin> sid ` set rows \<longrightarrow> find (\<lambda>r. sid r = i) (table (db s')) = find (\<lambda>r. sid r = i) (table (db s))"
    unfolding s'_def by (simp add: foldl_deliver_other)
  ultimately show ?thesis
    using f p st length_outcomes [of env "world s" rows] by blast
qed

theorem process_due_isolates_failures_witness:
  "distinct (map sid (table ex_due_store)) \<and>
   map_sum id (\<lambda>s'. (map (\<lambda>r. (sid r, status r)) (table (db s')), printed s', world s'))
     (process_due flaky_platform 100 \<lparr>world = [], db = ex_due_store, printed = []\<rparr>) =
   Inr ([(1, ''sent''), (2, ''failed''), (3, ''failed''), (4, ''sent''), (5, ''pending'')],
        [Failed_to_send 2 8 (DiscordException ''Unknown User''),
         Failed_to_send 3 7 (ClientError ''404 Not Found'')],
        [(7, ''a'', None), (9, [], Some (''bytes'', ''f.png''))])"
proof -
  have d: "distinct (map sid (table (db \<lparr>world = [], db = ex_due_store, printed = []\<rparr>)))"
    by code_simp
  have "distinct (map sid (table ex_due_store))"
    by code_simp
  moreover have "map_sum id (\<lambda>s'. (map (\<lambda>r. (sid r, status r)) (table (db s')), printed s', world s'))
     (process_due flaky_platform 100 \<lparr>world = [], db = ex_due_store, printed = []\<rparr>) =
   Inr ([(1, ''sent''), (2, ''failed''), (3, ''failed''), (4, ''sent''), (5, ''pending'')],
        [Failed_to_send 2 8 (DiscordException ''Unknown User''),
         Failed_to_send 3 7 (ClientError ''404 Not Found'')],
        [(7, ''a'', None), (9, [], Some (''bytes'', ''f.png''))])"
    by code_simp
  ultimately show ?thesis
    using process_due_isolates_failures [OF d, of 100 flaky_platform] by simp
qed

section \<open>Properties of the time converter across a change of offset\<close>

lemma parse_ny: "parse_time_12h_to_utc new_york ex_clock (str ''09:00 AM'') = Inr ny_run_utc"
proof (rule parse_time_steps)
  show "strptime (strip (str ''09:00 AM'')) = Inr (9, 0)"
    by code_simp
  show "datetime_now new_york ex_clock = ny_now"
    by code_simp
  show "localize new_york \<lparr>year = year (naive ny_now), month = month (naive ny_now),
           day = day (naive ny_now), hour = 9, minute = 0, second = 0, microsecond = 0\<rparr> = ny_run_local"
    by code_simp
  show "aware_le ny_run_local ny_now = True"
    by code_simp
  show "astimezone UTC (if True then add_days ny_run_local 1 else ny_run_local) = ny_run_utc"
    by code_simp
qed

lemma parse_ny_fall:
  "parse_time_12h_to_utc new_york ex_clock_fall (str ''12:00 AM'') = Inr ny_fall_run_utc"
proof (rule parse_time_steps)
  show "strptime (strip (str ''12:00 AM'')) = Inr (0, 0)"
    by code_simp
  show "datetime_now new_york ex_clock_fall = ny_fall_now"
    by code_simp
  show "localize new_york \<lparr>year = year (naive ny_fall_now), month = month (naive ny_fall_now),
           day = day (naive ny_fall_now), hour = 0, minute = 0, second = 0, microsecond = 0\<rparr> =
         ny_fall_run_local"
    by code_simp
  show "aware_le ny_fall_run_local ny_fall_now = True"
    by code_simp
  show "astimezone UTC (if True then add_days ny_fall_run_local 1 else ny_fall_run_local) =
         ny_fall_run_utc"
    by code_simp
qed

lemma ny_wall_clock:
  "astimezone new_york ny_run_utc =
     \<lparr>naive = \<lparr>year = 2024, month = 3, day = 10, hour = 10, minute = 0, second = 0,
               microsecond = 0\<rparr>, utcoff = - 240\<rparr>"
  by code_simp

lemma ny_fall_past: "instant ny_fall_run_utc < ex_clock_fall"
  by code_simp

lemma ny_pretty: "pretty_time_local new_york ny_run_utc = ''2024-03-10 10:00 AM''"
  by code_simp

text \<open>
  Claim C1 fails in a zone that changes its offset. With America/New_York configured,
  at 2024-03-10 03:00 UTC (22:00 of 9 March there) the input \<open>09:00 AM\<close> gives
  14:00 UTC of 10 March, which is 10:00 on the wall clock there, not 09:00: the day
  added to the localized datetime keeps the offset of the day before. On the day the
  clocks go back the result can be in the past: at 2024-11-04 04:59:30 UTC (23:59:30
  of 3 November there) the input \<open>12:00 AM\<close> gives 04:00 UTC of 4 November.
\<close>

theorem next_occurrence_wrong_across_dst:
  "parse_time_12h_to_utc new_york ex_clock (str ''09:00 AM'') = Inr ny_run_utc \<and>
   hour (naive (astimezone new_york ny_run_utc)) = 10 \<and>
   parse_time_12h_to_utc new_york ex_clock_fall (str ''12:00 AM'') = Inr ny_fall_run_utc \<and>
   instant ny_fall_run_utc < ex_clock_fall"
  using parse_ny parse_ny_fall ny_fall_past by (simp add: ny_wall_clock)

text \<open>
  Claim C6 fails at the same input as C1, by the same missing normalization: the stored
  instant for \<open>09:00 AM\<close> is rendered by \<open>pretty_time_local\<close> as 10:00 AM.
\<close>

theorem round_trip_wrong_across_dst:
  "map_sum id (pretty_time_local new_york)
     (parse_time_12h_to_utc new_york ex_clock (str ''09:00 AM'')) = Inr ''2024-03-10 10:00 AM''"
  by (simp add: parse_ny ny_pretty)

section \<open>Properties of runs\<close>

text \<open>
  Claim C2 fails on a run in which a cancellation comes between the \<open>SELECT\<close> of a
  tick and the delivery of the row: \<open>mark_sent\<close> has no condition on the status, and
  the record goes from \<open>pending\<close> to \<open>canceled\<close> and then to \<open>sent\<close>; the
  message of the canceled schedule is delivered.
\<close>

theorem canceled_then_sent:
  "map (\<lambda>p. map (\<lambda>r. (sid r, status r)) (table (db (prog p))))
     (run outbox_platform (start [])
        [Add_schedule 0 42 ex_run_utc (Some ''hi'') None, Fetch_due (instant ex_run_utc),
         Cancel_schedule 1, Deliver]) =
     [[], [(1, ''pending'')], [(1, ''pending'')], [(1, ''canceled'')], [(1, ''sent'')]] \<and>
   world (prog (last (run outbox_platform (start [])
        [Add_schedule 0 42 ex_run_utc (Some ''hi'') None, Fetch_due (instant ex_run_utc),
         Cancel_schedule 1, Deliver]))) = [(42, ''hi'', None)]"
  by code_simp

end
